theory Spec2Isabelle
  imports Complex_Main "HOL-Library.Multiset"
begin

section \<open>The shuffle (\<open>shuffleArray\<close>, script.js lines 527-534)\<close>

text \<open>
  \<open>Math.random()\<close> returns a number \<open>r\<close> with \<open>0 \<le> r < 1\<close>. The \<open>k\<close>-th call made
  during one run of the shuffle is modelled as \<open>rnd k\<close>, a real number; the premise
  \<open>unit_draws rnd\<close> states the range that the language guarantees.

  The product \<open>r * (i + 1)\<close> is taken in exact arithmetic, where the source
  multiplies IEEE doubles. For a draw just below a multiple of \<open>1 / (i + 1)\<close> the
  double product can round up to the next integer, so for the same number \<open>r\<close> the
  index of the source can be one more than \<open>random_index r i\<close>. What the model
  keeps of the expression is its range: the index is at most \<open>i\<close> in the source as
  in the model, and every index up to \<open>i\<close> is \<open>random_index r i\<close> for some
  \<open>r\<close> in the range (\<open>random_index_onto\<close> below), so the indices of every run of the
  source are those of the model for suitable draws. Which draw gives which index,
  and how often, is not modelled. For a draw outside the range the index could
  fall outside the array, where JavaScript would extend the array; the model does
  not follow the source there, and every statement about the shuffle carries the
  premise.
\<close>

definition unit_draws :: "(nat \<Rightarrow> real) \<Rightarrow> bool" where
  "unit_draws rnd \<longleftrightarrow> (\<forall>k. 0 \<le> rnd k \<and> rnd k < 1)"

text \<open>\<open>Math.floor(Math.random() * (i + 1))\<close>\<close>

definition random_index :: "real \<Rightarrow> nat \<Rightarrow> nat" where
  "random_index r i = nat \<lfloor>r * (real i + 1)\<rfloor>"

text \<open>
  The \<open>for\<close> loop over the local array \<open>shuffled\<close>: \<open>i\<close> is the loop variable, \<open>k\<close>
  counts the calls of \<open>Math.random()\<close> made so far. The destructuring assignment
  reads \<open>shuffled[j]\<close> and \<open>shuffled[i]\<close> first and then writes position \<open>i\<close> and
  position \<open>j\<close>, in this order.
\<close>

fun shuffle_loop :: "(nat \<Rightarrow> real) \<Rightarrow> nat \<Rightarrow> nat \<Rightarrow> 'a list \<Rightarrow> 'a list" where
  "shuffle_loop rnd k i shuffled =
     (if i > 0 then
        (let j = random_index (rnd k) i
         in shuffle_loop rnd (k + 1) (i - 1) (shuffled[i := shuffled ! j, j := shuffled ! i]))
      else shuffled)"

declare shuffle_loop.simps [simp del]

text \<open>
  \<open>const shuffled = [...array]\<close> copies the argument; on values the copy is the
  list itself. \<open>shuffled.length - 1\<close> is \<open>-1\<close> for the empty array, where the loop
  does not run; the truncated subtraction gives \<open>0\<close>, where it does not run either.
\<close>

definition shuffleArray :: "(nat \<Rightarrow> real) \<Rightarrow> 'a list \<Rightarrow> 'a list" where
  "shuffleArray rnd array = shuffle_loop rnd 0 (length array - 1) array"



section \<open>Strings and numbers of the host language\<close>

text \<open>
  Strings are lists of characters, a character standing for its code point below
  256. The white space of \<open>String.prototype.trim\<close>, of \<open>parseInt\<close> and of the regular
  expression class \<open>\s\<close> is the same set; its members below 256 are the six ASCII
  controls and blanks and the no-break space.
\<close>

definition isWhiteSpace :: "char \<Rightarrow> bool" where
  "isWhiteSpace c \<longleftrightarrow> (of_char c :: nat) \<in> {9, 10, 11, 12, 13, 32, 160}"

definition trim :: "string \<Rightarrow> string" where
  "trim str = rev (dropWhile isWhiteSpace (rev (dropWhile isWhiteSpace str)))"

text \<open>
  \<open>isValidEmail\<close> tests the whole string against \<open>[^\s@]+@[^\s@]+\.[^\s@]+\<close>:
  a non-empty part free of white space and of \<open>@\<close>, then \<open>@\<close>, then a part free of
  white space and of \<open>@\<close> that has a dot which is neither its first nor its last
  character.
\<close>

definition isValidEmail :: "string \<Rightarrow> bool" where
  "isValidEmail email =
     (let name = takeWhile (\<lambda>c. c \<noteq> CHR ''@'') email;
          rest = dropWhile (\<lambda>c. c \<noteq> CHR ''@'') email
      in name \<noteq> [] \<and> rest \<noteq> [] \<and>
         (\<forall>c \<in> set name. \<not> isWhiteSpace c) \<and>
         (\<forall>c \<in> set (tl rest). \<not> isWhiteSpace c \<and> c \<noteq> CHR ''@'') \<and>
         CHR ''.'' \<in> set (butlast (tl (tl rest))))"

text \<open>
  The attempt number is a JavaScript number that is an integer or, after
  \<open>parseInt\<close> of a string without digits, \<open>NaN\<close>. Integers are exact up to \<open>2^53\<close>;
  the model keeps them exact throughout. The counters \<open>moves\<close>, \<open>timer\<close>
  and \<open>matchedPairs\<close> start at \<open>0\<close> and only count up, so they are natural numbers.
\<close>

datatype jsnum = Num int | NaN

fun increment :: "jsnum \<Rightarrow> jsnum" where
  "increment (Num n) = Num (n + 1)"
| "increment NaN = NaN"

text \<open>The decimal digits of a natural number, most significant first.\<close>

fun decimal :: "nat \<Rightarrow> string" where
  "decimal n = (if 10 \<le> n then decimal (n div 10) else []) @ [char_of (n mod 10 + 48)]"

declare decimal.simps [simp del]

text \<open>\<open>Number.prototype.toString()\<close> on an integer (below \<open>10^21\<close>) and on \<open>NaN\<close>.\<close>

fun toString :: "jsnum \<Rightarrow> string" where
  "toString NaN = ''NaN''"
| "toString (Num n) = (if 0 \<le> n then decimal (nat n) else ''-'' @ decimal (nat \<bar>n\<bar>))"

definition digitValue :: "char \<Rightarrow> nat" where
  "digitValue c =
     (let n = (of_char c :: nat)
      in if 48 \<le> n \<and> n \<le> 57 then n - 48
         else if 97 \<le> n \<and> n \<le> 122 then n - 87
         else if 65 \<le> n \<and> n \<le> 90 then n - 55
         else 36)"

text \<open>
  \<open>parseInt(string)\<close> without a radix: leading white space is skipped, a sign is
  read, the prefix \<open>0x\<close> or \<open>0X\<close> selects radix 16 (otherwise 10), and the longest
  prefix of digits of that radix is the number; without such a digit the result is
  \<open>NaN\<close>.
\<close>

definition parseInt :: "string \<Rightarrow> jsnum" where
  "parseInt string =
     (let S0 = dropWhile isWhiteSpace string;
          sign = (if S0 \<noteq> [] \<and> hd S0 = CHR ''-'' then - 1 else 1 :: int);
          S1 = (if S0 \<noteq> [] \<and> (hd S0 = CHR ''+'' \<or> hd S0 = CHR ''-'') then tl S0 else S0);
          hex = (take 2 S1 = ''0x'' \<or> take 2 S1 = ''0X'');
          R = (if hex then 16 else 10 :: nat);
          S2 = (if hex then drop 2 S1 else S1);
          Z = takeWhile (\<lambda>c. digitValue c < R) S2
      in if Z = [] then NaN
         else Num (sign * int (foldl (\<lambda>acc c. acc * R + digitValue c) 0 Z)))"

section \<open>The game state and the page (script.js lines 1-46)\<close>

text \<open>The eight card types of the 4x4 grid.\<close>

definition CARD_TYPES :: "string list" where
  "CARD_TYPES = [''1'', ''2'', ''3'', ''4''] @ [''5'', ''6'', ''7'', ''8'']"

text \<open>
  A card element of the page: its \<open>data-card-type\<close> and \<open>data-card-index\<close>
  attributes and its class list. Elements are objects held by reference: the page
  keeps them in \<open>nodes\<close>, indexed by address, and \<open>gameGrid\<close> lists the addresses of
  the children of the grid in order.
\<close>

record cardElement =
  dataset_cardType :: string
  dataset_cardIndex :: nat
  classList :: "string set"

text \<open>An entry of \<open>gameState.flippedCards\<close>, as \<open>flipCard\<close> pushes it.\<close>

record flippedCard =
  element :: nat
  index :: nat
  cardType :: string

record player =
  nickname :: string
  email :: string
  attempt :: jsnum

text \<open>
  The three callbacks that the script hands to \<open>setTimeout\<close>: \<open>checkForMatch\<close>
  (600 ms after the second flip), the flip back of two cards (1000 ms after a
  mismatch; the closure holds the two elements) and \<open>completeGame\<close> (500 ms after
  the eighth match).
\<close>

datatype callback = CheckForMatch | FlipBack nat nat | CompleteGame

text \<open>
  The first eight fields are the object \<open>gameState\<close>. The others are what the script
  reads and writes in the browser: the card elements, \<open>localStorage\<close>, the
  \<open>display\<close> style of the completion modal, the callbacks scheduled by
  \<open>setTimeout\<close> that have not run yet, and the handles of the intervals started by
  \<open>setInterval\<close> that have not been cleared (handles are positive integers;
  \<open>lastHandle\<close> is the last one issued). Texts shown on the page, the visibility of
  the sections and the requests to the scoring service are left out.
\<close>

record page =
  cards :: "string list"
  flippedCards :: "flippedCard list"
  matchedPairs :: nat
  moves :: nat
  timer :: nat
  isGameActive :: bool
  timerInterval :: "nat option"
  currentPlayer :: player
  nodes :: "nat \<Rightarrow> cardElement"
  nextNode :: nat
  gameGrid :: "nat list"
  localStorage :: "string \<rightharpoonup> string"
  gameCompleteModal_display :: string
  timeouts :: "callback list"
  intervals :: "nat list"
  lastHandle :: nat

datatype error = TypeError

section \<open>The timer (script.js lines 459-474)\<close>

text \<open>The callback of the interval: \<open>gameState.timer++\<close>.\<close>

definition timerCallback :: "page \<Rightarrow> page" where
  "timerCallback s = s\<lparr>timer := timer s + 1\<rparr>"

definition startTimer :: "page \<Rightarrow> page" where
  "startTimer s =
     (let h = Suc (lastHandle s)
      in s\<lparr>timerInterval := Some h, intervals := h # intervals s, lastHandle := h\<rparr>)"

text \<open>\<open>if (gameState.timerInterval)\<close> holds for a handle other than \<open>0\<close>.\<close>

definition stopTimer :: "page \<Rightarrow> page" where
  "stopTimer s =
     (case timerInterval s of
        Some h \<Rightarrow>
          if h \<noteq> 0 then s\<lparr>intervals := removeAll h (intervals s), timerInterval := None\<rparr>
          else s
      | None \<Rightarrow> s)"

text \<open>
  One tick of the interval with handle \<open>h\<close>: the browser runs the callback as long
  as the interval has not been cleared.
\<close>

definition tick :: "nat \<Rightarrow> page \<Rightarrow> page" where
  "tick h s = (if h \<in> set (intervals s) then timerCallback s else s)"

section \<open>Dealing the cards (script.js lines 194-265)\<close>

definition createCardElement :: "string \<Rightarrow> nat \<Rightarrow> cardElement" where
  "createCardElement ctype idx =
     \<lparr>dataset_cardType = ctype, dataset_cardIndex = idx, classList = {''card''}\<rparr>"

text \<open>One round of the second \<open>forEach\<close>: create the element and append it to the grid.\<close>

definition appendCard :: "page \<Rightarrow> string \<times> nat \<Rightarrow> page" where
  "appendCard s = (\<lambda>(ctype, idx).
     s\<lparr>nodes := (nodes s)(nextNode s := createCardElement ctype idx),
       gameGrid := gameGrid s @ [nextNode s],
       nextNode := Suc (nextNode s)\<rparr>)"

text \<open>The local array \<open>cardPairs\<close> after the first \<open>forEach\<close>: each card type twice.\<close>

definition cardPairs :: "string list" where
  "cardPairs = foldl (\<lambda>acc ctype. acc @ [ctype, ctype]) [] CARD_TYPES"

definition generateCards :: "(nat \<Rightarrow> real) \<Rightarrow> page \<Rightarrow> page" where
  "generateCards rnd s =
     (let s1 = s\<lparr>cards := shuffleArray rnd cardPairs\<rparr>;
          s2 = s1\<lparr>gameGrid := []\<rparr>
      in foldl appendCard s2 (zip (cards s2) [0 ..< length (cards s2)]))"

definition startGame :: "(nat \<Rightarrow> real) \<Rightarrow> page \<Rightarrow> page" where
  "startGame rnd s =
     startTimer (generateCards rnd
       (s\<lparr>moves := 0, timer := 0, matchedPairs := 0, flippedCards := [],
          isGameActive := True\<rparr>))"

section \<open>Playing (script.js lines 287-398)\<close>

definition addClass :: "string \<Rightarrow> nat \<Rightarrow> page \<Rightarrow> page" where
  "addClass c a s = s\<lparr>nodes := (nodes s)(a := (nodes s a)\<lparr>classList := insert c (classList (nodes s a))\<rparr>)\<rparr>"

definition removeClasses :: "string set \<Rightarrow> nat \<Rightarrow> page \<Rightarrow> page" where
  "removeClasses cs a s = s\<lparr>nodes := (nodes s)(a := (nodes s a)\<lparr>classList := classList (nodes s a) - cs\<rparr>)\<rparr>"

definition setTimeout :: "callback \<Rightarrow> page \<Rightarrow> page" where
  "setTimeout cb s = s\<lparr>timeouts := timeouts s @ [cb]\<rparr>"

definition flipCard :: "nat \<Rightarrow> nat \<Rightarrow> page \<Rightarrow> page" where
  "flipCard cardElement cardIndex s =
     (let s1 = addClass ''flipped'' cardElement s;
          s2 = s1\<lparr>flippedCards := flippedCards s1 @
                 [\<lparr>element = cardElement, index = cardIndex,
                   cardType = dataset_cardType (nodes s1 cardElement)\<rparr>]\<rparr>
      in if length (flippedCards s2) = 2
         then setTimeout CheckForMatch (s2\<lparr>moves := moves s2 + 1\<rparr>)
         else s2)"

definition handleCardClick :: "nat \<Rightarrow> nat \<Rightarrow> page \<Rightarrow> page" where
  "handleCardClick cardElement cardIndex s =
     (if \<not> isGameActive s \<or>
         ''flipped'' \<in> classList (nodes s cardElement) \<or>
         ''matched'' \<in> classList (nodes s cardElement) \<or>
         length (flippedCards s) \<ge> 2
      then s
      else flipCard cardElement cardIndex s)"

definition handleMatch :: "nat \<Rightarrow> nat \<Rightarrow> page \<Rightarrow> page" where
  "handleMatch card1 card2 s =
     (let s1 = addClass ''matched'' card2 (addClass ''matched'' card1 s);
          s2 = s1\<lparr>matchedPairs := matchedPairs s1 + 1\<rparr>
      in if matchedPairs s2 = 8 then setTimeout CompleteGame s2 else s2)"

definition handleNoMatch :: "nat \<Rightarrow> nat \<Rightarrow> page \<Rightarrow> page" where
  "handleNoMatch card1 card2 s =
     setTimeout (FlipBack card1 card2) (addClass ''wrong'' card2 (addClass ''wrong'' card1 s))"

text \<open>The callback scheduled by \<open>handleNoMatch\<close>.\<close>

definition flipBack :: "nat \<Rightarrow> nat \<Rightarrow> page \<Rightarrow> page" where
  "flipBack card1 card2 s =
     removeClasses {''flipped'', ''wrong''} card2 (removeClasses {''flipped'', ''wrong''} card1 s)"

text \<open>
  \<open>const [card1, card2] = gameState.flippedCards\<close> leaves \<open>card2\<close> (or both)
  undefined when the array has fewer than two entries; reading \<open>.type\<close> for the log
  line then throws, before anything is changed.
\<close>

definition checkForMatch :: "page \<Rightarrow> error + page" where
  "checkForMatch s =
     (case flippedCards s of
        card1 # card2 # _ \<Rightarrow>
          Inr ((if cardType card1 = cardType card2
                then handleMatch (element card1) (element card2) s
                else handleNoMatch (element card1) (element card2) s)
               \<lparr>flippedCards := []\<rparr>)
      | _ \<Rightarrow> Inl TypeError)"

definition showGameCompleteModal :: "page \<Rightarrow> page" where
  "showGameCompleteModal s = s\<lparr>gameCompleteModal_display := ''flex''\<rparr>"

definition completeGame :: "page \<Rightarrow> page" where
  "completeGame s = showGameCompleteModal (stopTimer (s\<lparr>isGameActive := False\<rparr>))"


text \<open>
  Running a scheduled callback. An exception that escapes a callback ends that
  callback only; the state is as the callback left it (here: untouched).
\<close>

fun run :: "callback \<Rightarrow> page \<Rightarrow> page" where
  "run CheckForMatch s = (case checkForMatch s of Inr s' \<Rightarrow> s' | Inl _ \<Rightarrow> s)"
| "run (FlipBack card1 card2) s = flipBack card1 card2 s"
| "run CompleteGame s = completeGame s"

text \<open>
  The \<open>k\<close>-th callback waiting in \<open>timeouts\<close> comes due: it leaves the list and
  runs. The delays are not modelled: any waiting callback may be the next to run.
\<close>

definition fire :: "nat \<Rightarrow> page \<Rightarrow> page" where
  "fire k s =
     (if k < length (timeouts s)
      then run (timeouts s ! k) (s\<lparr>timeouts := take k (timeouts s) @ drop (Suc k) (timeouts s)\<rparr>)
      else s)"

section \<open>Entering and retrying (script.js lines 157-189 and 479-489)\<close>

definition playerKey :: "player \<Rightarrow> string" where
  "playerKey p = nickname p @ ''_'' @ email p"

text \<open>
  \<open>handleStartGame\<close> on the two raw form fields. \<open>storedAttempt ? ... : 1\<close> takes
  the first branch for a stored string that is not empty.
\<close>

definition handleStartGame :: "string \<Rightarrow> string \<Rightarrow> (nat \<Rightarrow> real) \<Rightarrow> page \<Rightarrow> page" where
  "handleStartGame rawNickname rawEmail rnd s =
     (let nick = trim rawNickname; mail = trim rawEmail
      in if nick = [] \<or> length nick < 2 then s
         else if mail = [] \<or> \<not> isValidEmail mail then s
         else
           (let p = (currentPlayer s)\<lparr>nickname := nick, email := mail\<rparr>;
                key = nick @ ''_'' @ mail;
                storedAttempt = localStorage s key;
                p' = p\<lparr>attempt :=
                       (case storedAttempt of
                          Some str \<Rightarrow> if str \<noteq> [] then increment (parseInt str) else Num 1
                        | None \<Rightarrow> Num 1)\<rparr>
            in startGame rnd
                 (s\<lparr>currentPlayer := p',
                    localStorage := (localStorage s)(key \<mapsto> toString (attempt p'))\<rparr>)))"

definition handleTryAgain :: "(nat \<Rightarrow> real) \<Rightarrow> page \<Rightarrow> page" where
  "handleTryAgain rnd s =
     (let s1 = s\<lparr>gameCompleteModal_display := ''none''\<rparr>;
          key = playerKey (currentPlayer s1);
          s2 = s1\<lparr>currentPlayer := (currentPlayer s1)\<lparr>attempt := increment (attempt (currentPlayer s1))\<rparr>\<rparr>;
          s3 = s2\<lparr>localStorage := (localStorage s2)(key \<mapsto> toString (attempt (currentPlayer s2)))\<rparr>
      in startGame rnd s3)"

text \<open>The page as the script finds it when it is loaded.\<close>

definition initialPage :: page where
  "initialPage =
     \<lparr>cards = [], flippedCards = [], matchedPairs = 0, moves = 0, timer = 0,
      isGameActive = False, timerInterval = None,
      currentPlayer = \<lparr>nickname = [], email = [], attempt = Num 1\<rparr>,
      nodes = (\<lambda>_. createCardElement [] 0), nextNode = 0, gameGrid = [],
      localStorage = Map.empty, gameCompleteModal_display = [],
      timeouts = [], intervals = [], lastHandle = 0\<rparr>"

section \<open>The shuffle as the specification words it\<close>


section \<open>Concrete inputs\<close>

text \<open>Draws that are all \<open>0\<close>, all \<open>1/2\<close>, and all \<open>31/32\<close>.\<close>

definition draws_zero :: "nat \<Rightarrow> real" where
  "draws_zero k = 0"

definition draws_half :: "nat \<Rightarrow> real" where
  "draws_half k = 1 / 2"

definition draws_high :: "nat \<Rightarrow> real" where
  "draws_high k = 31 / 32"


section \<open>Sessions\<close>

text \<open>
  The state of a card as the specification names it, read off the class list:
  a card with class \<open>matched\<close> is matched, otherwise a card with class \<open>flipped\<close>
  is revealed, otherwise it is hidden.
\<close>

datatype cardState = Hidden | Revealed | Matched

definition cardStateOf :: "cardElement \<Rightarrow> cardState" where
  "cardStateOf c =
     (if ''matched'' \<in> classList c then Matched
      else if ''flipped'' \<in> classList c then Revealed
      else Hidden)"

text \<open>
  What happens during a playthrough: the player clicks the card at position \<open>i\<close>
  of the grid (the listener that \<open>createCardElement\<close> attached calls
  \<open>handleCardClick\<close> with that element and its index), a scheduled callback comes
  due, or an interval ticks.
\<close>

datatype event = Click nat | Timeout nat | Tick nat

fun step :: "event \<Rightarrow> page \<Rightarrow> page" where
  "step (Click i) s = (if i < length (gameGrid s) then handleCardClick (gameGrid s ! i) i s else s)"
| "step (Timeout k) s = fire k s"
| "step (Tick h) s = tick h s"

definition play :: "event list \<Rightarrow> page \<Rightarrow> page" where
  "play evs s = foldl (\<lambda>s e. step e s) s evs"

text \<open>
  The states of one session: \<open>startGame\<close> on a page where no callback and no
  interval of an earlier playthrough is outstanding and the completion modal is
  not shown, followed by any number of events. The script never cancels a
  callback that it has scheduled, so a game can also be started while callbacks
  of an abandoned game are still waiting (back to menu and a new start before
  they come due); such a game is not a session in this sense. The playthroughs
  defined further below include such games, and the concrete run \<open>restarted\<close>
  shows what a waiting \<open>completeGame\<close> does to one.
\<close>

inductive session :: "page \<Rightarrow> bool" where
  started: "timeouts s0 = [] \<Longrightarrow> intervals s0 = [] \<Longrightarrow> gameCompleteModal_display s0 \<noteq> ''flex'' \<Longrightarrow>
          unit_draws rnd \<Longrightarrow> session (startGame rnd s0)"
| stepped: "session s \<Longrightarrow> session (step e s)"

text \<open>
  The session is completed once \<open>completeGame\<close> has run: the game is no longer
  active and the completion modal is shown.
\<close>

definition completed :: "page \<Rightarrow> bool" where
  "completed s \<longleftrightarrow> \<not> isGameActive s \<and> gameCompleteModal_display s = ''flex''"

text \<open>The guard of \<open>handleCardClick\<close>: the click is ignored.\<close>

definition rejected :: "nat \<Rightarrow> page \<Rightarrow> bool" where
  "rejected cardElement s \<longleftrightarrow>
     \<not> isGameActive s \<or>
     cardStateOf (nodes s cardElement) \<noteq> Hidden \<or>
     length (flippedCards s) \<ge> 2"

section \<open>Concrete sessions\<close>

text \<open>
  A game dealt with the draws \<open>31/32\<close>, which leave the deck in the order
  \<open>1 1 2 2 ... 8 8\<close>, on the page as loaded; the cards are the elements \<open>0\<close> to \<open>15\<close>.
  Then: the first card is clicked; the second card, of the same type, is clicked;
  the match is resolved. Or: after the first card the third, of another type, is
  clicked; the mismatch is resolved; the two cards are flipped back.
\<close>

definition game0 :: page where
  "game0 = startGame draws_high initialPage"

definition game1 :: page where
  "game1 = step (Click 0) game0"

definition game2 :: page where
  "game2 = step (Click 1) game1"

definition game3 :: page where
  "game3 = step (Timeout 0) game2"

definition miss2 :: page where
  "miss2 = step (Click 2) game1"

definition miss3 :: page where
  "miss3 = step (Timeout 0) miss2"

definition miss4 :: page where
  "miss4 = step (Timeout 0) miss3"

text \<open>After the first pair is matched, the two cards of the second pair are clicked.\<close>

definition game5 :: page where
  "game5 = step (Click 3) (step (Click 2) game3)"

text \<open>The page as loaded, with the attempt count \<open>3\<close> stored for a player.\<close>

definition stored3 :: page where
  "stored3 = initialPage\<lparr>localStorage := [''Ann_a@b.c'' \<mapsto> ''3'']\<rparr>"

text \<open>
  The shortest winning play: the eight pairs in order, each resolved before the
  next; and the state when the scheduled \<open>completeGame\<close> has run after it.
\<close>

definition winning_play :: "event list" where
  "winning_play = concat (map (\<lambda>p. [Click (2 * p), Click (2 * p + 1), Timeout 0]) [0 ..< 8])"

definition won :: page where
  "won = play winning_play game0"

definition finished :: page where
  "finished = step (Timeout 0) won"




section \<open>The invariant of a session\<close>

text \<open>
  The cards that are held by the pending turn or by a scheduled flip back, in
  the order turn first.
\<close>

fun flipBackCards :: "callback \<Rightarrow> nat list" where
  "flipBackCards (FlipBack card1 card2) = [card1, card2]"
| "flipBackCards CheckForMatch = []"
| "flipBackCards CompleteGame = []"

definition busy :: "page \<Rightarrow> nat list" where
  "busy s = map element (flippedCards s) @ concat (map flipBackCards (timeouts s))"

definition matchedCards :: "page \<Rightarrow> nat set" where
  "matchedCards s = {a \<in> set (gameGrid s). cardStateOf (nodes s a) = Matched}"

text \<open>
  The turn holds at most two cards, and \<open>checkForMatch\<close> is scheduled exactly
  once while it holds two.
\<close>

definition inv_turn :: "page \<Rightarrow> bool" where
  "inv_turn s \<longleftrightarrow>
     length (flippedCards s) \<le> 2 \<and>
     count_list (timeouts s) CheckForMatch = (if length (flippedCards s) = 2 then 1 else 0)"

definition inv_grid :: "page \<Rightarrow> bool" where
  "inv_grid s \<longleftrightarrow> distinct (gameGrid s) \<and> length (gameGrid s) = 16"

text \<open>
  The held cards are different cards of the grid, and each of them is revealed.
\<close>

definition inv_busy :: "page \<Rightarrow> bool" where
  "inv_busy s \<longleftrightarrow>
     distinct (busy s) \<and>
     (\<forall>a \<in> set (busy s). a \<in> set (gameGrid s) \<and> cardStateOf (nodes s a) = Revealed)"

definition inv_pairs :: "page \<Rightarrow> bool" where
  "inv_pairs s \<longleftrightarrow> card (matchedCards s) = 2 * matchedPairs s"

text \<open>
  \<open>completeGame\<close> is scheduled, exactly once, while the game is active with eight
  matched pairs; the game is no longer active only with eight matched pairs;
  and the modal is shown exactly when the game is no longer active.
\<close>

definition inv_done :: "page \<Rightarrow> bool" where
  "inv_done s \<longleftrightarrow>
     count_list (timeouts s) CompleteGame = (if isGameActive s \<and> matchedPairs s = 8 then 1 else 0) \<and>
     (\<not> isGameActive s \<longrightarrow> matchedPairs s = 8) \<and>
     (\<not> isGameActive s \<longleftrightarrow> gameCompleteModal_display s = ''flex'')"

text \<open>
  While the game is active exactly one interval runs, the one whose handle
  \<open>timerInterval\<close> holds; afterwards none runs.
\<close>

definition inv_clock :: "page \<Rightarrow> bool" where
  "inv_clock s \<longleftrightarrow>
     (if isGameActive s
      then \<exists>h. h \<noteq> 0 \<and> timerInterval s = Some h \<and> intervals s = [h]
      else intervals s = [])"

definition invariant :: "page \<Rightarrow> bool" where
  "invariant s \<longleftrightarrow>
     inv_turn s \<and> inv_grid s \<and> inv_busy s \<and> inv_pairs s \<and> inv_done s \<and> inv_clock s"

section \<open>Games started over an abandoned one\<close>






section \<open>Decimal digits\<close>

text \<open>The characters \<open>0\<close> to \<open>9\<close>.\<close>

definition digit :: "char \<Rightarrow> bool" where
  "digit c \<longleftrightarrow> (\<exists>d<10. c = char_of (d + 48 :: nat))"

section \<open>Properties of the shuffle\<close>

lemma random_index_le:
  assumes "0 \<le> r" "r < 1"
  shows "random_index r i \<le> i"
proof -
  have "r * (real i + 1) < real i + 1"
    using assms by (simp add: mult_less_cancel_right2)
  hence "\<lfloor>r * (real i + 1)\<rfloor> < int i + 1"
    by (subst floor_less_iff) simp
  thus ?thesis
    by (simp add: random_index_def)
qed

lemma shuffle_loop_mset:
  "unit_draws rnd \<Longrightarrow> i < length xs \<Longrightarrow> mset (shuffle_loop rnd k i xs) = mset xs"
proof (induction rnd k i xs rule: shuffle_loop.induct)
  case (1 rnd k i shuffled)
  show ?case
  proof (cases "i > 0")
    case False
    then show ?thesis by (simp add: shuffle_loop.simps)
  next
    case True
    define j where "j = random_index (rnd k) i"
    have jle: "j \<le> i"
      using "1.prems"(1) by (simp add: j_def unit_draws_def random_index_le)
    let ?ys = "shuffled[i := shuffled ! j, j := shuffled ! i]"
    have sw: "mset ?ys = mset shuffled"
      using jle "1.prems"(2) by (simp add: mset_swap)
    have "mset (shuffle_loop rnd (k + 1) (i - 1) ?ys) = mset ?ys"
      using "1.IH"[OF True j_def] "1.prems" True by simp
    with sw True show ?thesis
      by (simp add: shuffle_loop.simps[of rnd k i shuffled] j_def Let_def)
  qed
qed

lemma shuffle_loop_0: "shuffle_loop rnd k 0 xs = xs"
  by (simp add: shuffle_loop.simps)

lemma shuffle_loop_Suc:
  "shuffle_loop rnd k (Suc i) xs =
     shuffle_loop rnd (Suc k) i
       (xs[Suc i := xs ! random_index (rnd k) (Suc i), random_index (rnd k) (Suc i) := xs ! Suc i])"
  by (simp add: shuffle_loop.simps[of rnd k "Suc i"] Let_def)

lemma shuffleArray_mset:
  assumes "unit_draws rnd"
  shows "mset (shuffleArray rnd array) = mset array"
proof (cases array)
  case Nil
  then show ?thesis by (simp add: shuffleArray_def shuffle_loop_0)
next
  case (Cons x xs)
  then have "length array - 1 < length array" by simp
  from shuffle_loop_mset[OF assms this] show ?thesis
    by (simp add: shuffleArray_def)
qed

lemma shuffleArray_length:
  assumes "unit_draws rnd"
  shows "length (shuffleArray rnd array) = length array"
  using shuffleArray_mset[OF assms, of array] by (metis size_mset)

lemma unit_draws_zero: "unit_draws draws_zero"
  by (simp add: unit_draws_def draws_zero_def)

lemma unit_draws_half: "unit_draws draws_half"
  by (simp add: unit_draws_def draws_half_def)

lemma unit_draws_high: "unit_draws draws_high"
  by (simp add: unit_draws_def draws_high_def)

text \<open>
  Claim C2. For every input array and every sequence of draws of \<open>Math.random()\<close>,
  the output of \<open>shuffleArray\<close> is a permutation of the input: both have the same
  multiset of elements, and sorting the output gives the sorted input.
\<close>

theorem shuffleArray_permutation:
  fixes array :: "'a::linorder list"
  assumes "unit_draws rnd"
  shows "mset (shuffleArray rnd array) = mset array \<and>
         sort (shuffleArray rnd array) = sort array"
proof -
  have m: "mset (shuffleArray rnd array) = mset array"
    by (rule shuffleArray_mset[OF assms])
  have "sort (shuffleArray rnd array) = sort array"
    by (rule properties_for_sort) (simp_all add: m)
  with m show ?thesis by simp
qed

theorem shuffleArray_permutation_witness:
  "unit_draws draws_half \<and>
   shuffleArray draws_half [3, 1, 2 :: nat] = [3, 2, 1] \<and>
   mset (shuffleArray draws_half [3, 1, 2 :: nat]) = mset [3, 1, 2] \<and>
   sort (shuffleArray draws_half [3, 1, 2 :: nat]) = sort [3, 1, 2]"
proof -
  have e: "shuffleArray draws_half [3, 1, 2 :: nat] = [3, 2, 1]"
    by (simp add: shuffleArray_def eval_nat_numeral shuffle_loop_0 shuffle_loop_Suc
          random_index_def draws_half_def)
  from unit_draws_half e shuffleArray_permutation[OF unit_draws_half, of "[3, 1, 2 :: nat]"]
  show ?thesis by simp
qed



lemma random_index_onto:
  assumes "j \<le> i"
  shows "\<exists>r. 0 \<le> r \<and> r < 1 \<and> random_index r i = j"
proof (intro exI conjI)
  show "0 \<le> real j / (real i + 1)" by simp
  show "real j / (real i + 1) < 1" using assms by simp
  have "real j / (real i + 1) * (real i + 1) = real j" by simp
  then show "random_index (real j / (real i + 1)) i = j"
    by (simp only: random_index_def) simp
qed




section \<open>Properties of dealing\<close>

lemma appendCards_closed:
  "foldl appendCard s ps =
     s\<lparr>nodes := (\<lambda>a. if nextNode s \<le> a \<and> a < nextNode s + length ps
                    then createCardElement (fst (ps ! (a - nextNode s))) (snd (ps ! (a - nextNode s)))
                    else nodes s a),
       gameGrid := gameGrid s @ [nextNode s ..< nextNode s + length ps],
       nextNode := nextNode s + length ps\<rparr>"
proof (induction ps rule: rev_induct)
  case Nil
  show ?case by (cases s) (auto simp: fun_eq_iff)
next
  case (snoc p ps)
  define F where "F = foldl appendCard s ps"
  define N where "N = (\<lambda>a. if nextNode s \<le> a \<and> a < nextNode s + length (ps @ [p])
                    then createCardElement (fst ((ps @ [p]) ! (a - nextNode s))) (snd ((ps @ [p]) ! (a - nextNode s)))
                    else nodes s a)"
  have Feq: "F = s\<lparr>nodes := (\<lambda>a. if nextNode s \<le> a \<and> a < nextNode s + length ps
                    then createCardElement (fst (ps ! (a - nextNode s))) (snd (ps ! (a - nextNode s)))
                    else nodes s a),
       gameGrid := gameGrid s @ [nextNode s ..< nextNode s + length ps],
       nextNode := nextNode s + length ps\<rparr>"
    unfolding F_def by (rule snoc.IH)
  have n: "nextNode F = nextNode s + length ps" by (subst Feq) simp
  have g: "gameGrid F = gameGrid s @ [nextNode s ..< nextNode s + length ps]" by (subst Feq) simp
  have d: "(nodes F)(nextNode F := createCardElement (fst p) (snd p)) = N"
    unfolding n N_def by (subst Feq, rule ext) (auto simp: nth_append)
  have "foldl appendCard s (ps @ [p]) =
        F\<lparr>nodes := (nodes F)(nextNode F := createCardElement (fst p) (snd p)),
          gameGrid := gameGrid F @ [nextNode F], nextNode := Suc (nextNode F)\<rparr>"
    by (simp add: F_def appendCard_def split_beta)
  also have "\<dots> = F\<lparr>nodes := N, gameGrid := gameGrid s @ [nextNode s ..< nextNode s + length (ps @ [p])],
          nextNode := nextNode s + length (ps @ [p])\<rparr>"
    by (simp only: d) (simp add: g n)
  also have "\<dots> = s\<lparr>nodes := N, gameGrid := gameGrid s @ [nextNode s ..< nextNode s + length (ps @ [p])],
          nextNode := nextNode s + length (ps @ [p])\<rparr>"
    by (subst Feq) simp
  finally show ?case unfolding N_def .
qed

lemma cardPairs_eq:
  "cardPairs = [''1'', ''1'', ''2'', ''2'', ''3'', ''3'', ''4'', ''4''] @
               [''5'', ''5'', ''6'', ''6'', ''7'', ''7'', ''8'', ''8'']"
  by (simp add: cardPairs_def CARD_TYPES_def)

text \<open>The state that \<open>generateCards\<close> returns, field by field.\<close>

lemma generateCards_eq:
  "generateCards rnd s =
     s\<lparr>cards := shuffleArray rnd cardPairs,
       nodes := (\<lambda>a. if nextNode s \<le> a \<and> a < nextNode s + length (shuffleArray rnd cardPairs)
                    then createCardElement (shuffleArray rnd cardPairs ! (a - nextNode s)) (a - nextNode s)
                    else nodes s a),
       gameGrid := [nextNode s ..< nextNode s + length (shuffleArray rnd cardPairs)],
       nextNode := nextNode s + length (shuffleArray rnd cardPairs)\<rparr>"
proof -
  define cs where "cs = shuffleArray rnd cardPairs"
  define s2 where "s2 = s\<lparr>cards := cs, gameGrid := []\<rparr>"
  have N: "(\<lambda>a. if nextNode s \<le> a \<and> a < nextNode s + length cs
               then createCardElement (fst (zip cs [0 ..< length cs] ! (a - nextNode s)))
                      (snd (zip cs [0 ..< length cs] ! (a - nextNode s)))
               else nodes s a) =
           (\<lambda>a. if nextNode s \<le> a \<and> a < nextNode s + length cs
               then createCardElement (cs ! (a - nextNode s)) (a - nextNode s)
               else nodes s a)"
    by (rule ext) auto
  have "generateCards rnd s = foldl appendCard s2 (zip cs [0 ..< length cs])"
    by (simp add: generateCards_def Let_def cs_def s2_def)
  also have "\<dots> = s2\<lparr>nodes := (\<lambda>a. if nextNode s \<le> a \<and> a < nextNode s + length cs
               then createCardElement (fst (zip cs [0 ..< length cs] ! (a - nextNode s)))
                      (snd (zip cs [0 ..< length cs] ! (a - nextNode s)))
               else nodes s a),
       gameGrid := [nextNode s ..< nextNode s + length cs],
       nextNode := nextNode s + length cs\<rparr>"
    by (subst appendCards_closed) (simp add: s2_def cong: if_cong)
  also have "\<dots> = s\<lparr>cards := cs,
       nodes := (\<lambda>a. if nextNode s \<le> a \<and> a < nextNode s + length cs
               then createCardElement (cs ! (a - nextNode s)) (a - nextNode s)
               else nodes s a),
       gameGrid := [nextNode s ..< nextNode s + length cs],
       nextNode := nextNode s + length cs\<rparr>"
    by (simp only: N) (simp add: s2_def)
  finally show ?thesis unfolding cs_def .
qed

lemma cardPairs_length: "length cardPairs = 16"
  by (simp add: cardPairs_eq)

lemma cardPairs_set: "set cardPairs = set CARD_TYPES"
  by (auto simp: cardPairs_eq CARD_TYPES_def)

lemma CARD_TYPES_card: "card (set CARD_TYPES) = 8"
  by (simp add: CARD_TYPES_def)

lemma cardPairs_count: "t \<in> set CARD_TYPES \<Longrightarrow> count (mset cardPairs) t = 2"
  by (auto simp: cardPairs_eq CARD_TYPES_def)

lemma startGame_eq:
  "startGame rnd s =
     s\<lparr>moves := 0, timer := 0, matchedPairs := 0, flippedCards := [], isGameActive := True,
       cards := shuffleArray rnd cardPairs,
       nodes := (\<lambda>a. if nextNode s \<le> a \<and> a < nextNode s + length (shuffleArray rnd cardPairs)
                    then createCardElement (shuffleArray rnd cardPairs ! (a - nextNode s)) (a - nextNode s)
                    else nodes s a),
       gameGrid := [nextNode s ..< nextNode s + length (shuffleArray rnd cardPairs)],
       nextNode := nextNode s + length (shuffleArray rnd cardPairs),
       timerInterval := Some (Suc (lastHandle s)),
       intervals := Suc (lastHandle s) # intervals s,
       lastHandle := Suc (lastHandle s)\<rparr>"
  by (simp add: startGame_def generateCards_eq startTimer_def Let_def cong: if_cong)

lemma startGame_cards: "cards (startGame rnd s) = shuffleArray rnd cardPairs"
  by (simp add: startGame_eq)

lemma startGame_gameGrid:
  "unit_draws rnd \<Longrightarrow> gameGrid (startGame rnd s) = [nextNode s ..< nextNode s + 16]"
  by (simp add: startGame_eq shuffleArray_length cardPairs_length)

lemma startGame_nodes:
  "unit_draws rnd \<Longrightarrow> i < 16 \<Longrightarrow>
   nodes (startGame rnd s) (nextNode s + i) = createCardElement (shuffleArray rnd cardPairs ! i) i"
  by (simp add: startGame_eq shuffleArray_length cardPairs_length)

text \<open>
  Claim C1. Every deck that a new game deals (\<open>startGame\<close>, through
  \<open>generateCards\<close>) has exactly 16 cards, drawn from the 8 distinct card types,
  and each type occurs exactly twice, whatever the draws of the shuffle are; the
  16 card elements put on the grid show that deck in order.
\<close>

theorem newGame_deck:
  assumes "unit_draws rnd"
  shows "length (cards (startGame rnd s)) = 16 \<and>
         set (cards (startGame rnd s)) = set CARD_TYPES \<and>
         card (set CARD_TYPES) = 8 \<and>
         (\<forall>t \<in> set CARD_TYPES. count (mset (cards (startGame rnd s))) t = 2) \<and>
         map (\<lambda>a. dataset_cardType (nodes (startGame rnd s) a)) (gameGrid (startGame rnd s)) =
           cards (startGame rnd s)"
proof -
  have m: "mset (cards (startGame rnd s)) = mset cardPairs"
    by (simp add: startGame_cards shuffleArray_mset[OF assms])
  have l: "length (cards (startGame rnd s)) = 16"
    by (simp add: startGame_cards shuffleArray_length[OF assms] cardPairs_length)
  have st: "set (cards (startGame rnd s)) = set CARD_TYPES"
    using mset_eq_setD[OF m] by (simp add: cardPairs_set)
  have c: "\<forall>t \<in> set CARD_TYPES. count (mset (cards (startGame rnd s))) t = 2"
    by (simp add: m cardPairs_count)
  have g: "map (\<lambda>a. dataset_cardType (nodes (startGame rnd s) a)) (gameGrid (startGame rnd s)) =
           cards (startGame rnd s)"
  proof (rule nth_equalityI)
    show "length (map (\<lambda>a. dataset_cardType (nodes (startGame rnd s) a)) (gameGrid (startGame rnd s))) =
          length (cards (startGame rnd s))"
      by (simp add: l startGame_gameGrid[OF assms])
  next
    fix i
    assume "i < length (map (\<lambda>a. dataset_cardType (nodes (startGame rnd s) a)) (gameGrid (startGame rnd s)))"
    then have i: "i < 16" by (simp add: startGame_gameGrid[OF assms])
    then show "map (\<lambda>a. dataset_cardType (nodes (startGame rnd s) a)) (gameGrid (startGame rnd s)) ! i =
               cards (startGame rnd s) ! i"
      by (simp add: startGame_gameGrid[OF assms] startGame_nodes[OF assms i] startGame_cards
            createCardElement_def)
  qed
  from l st c g CARD_TYPES_card show ?thesis by simp
qed

lemma shuffle_high: "shuffleArray draws_high cardPairs = cardPairs"
  by (simp add: shuffleArray_def cardPairs_eq eval_nat_numeral shuffle_loop_0 shuffle_loop_Suc
        random_index_def draws_high_def)

theorem newGame_deck_witness:
  "unit_draws draws_high \<and>
   cards (startGame draws_high initialPage) =
     [''1'', ''1'', ''2'', ''2'', ''3'', ''3'', ''4'', ''4''] @
     [''5'', ''5'', ''6'', ''6'', ''7'', ''7'', ''8'', ''8''] \<and>
   length (cards (startGame draws_high initialPage)) = 16 \<and>
   set (cards (startGame draws_high initialPage)) = set CARD_TYPES \<and>
   card (set (cards (startGame draws_high initialPage))) = 8 \<and>
   count (mset (cards (startGame draws_high initialPage))) ''3'' = 2"
proof -
  have e: "cards (startGame draws_high initialPage) =
     [''1'', ''1'', ''2'', ''2'', ''3'', ''3'', ''4'', ''4''] @
     [''5'', ''5'', ''6'', ''6'', ''7'', ''7'', ''8'', ''8'']"
    unfolding startGame_cards shuffle_high by (simp add: cardPairs_eq)
  have t: "''3'' \<in> set CARD_TYPES"
    by (simp add: CARD_TYPES_def)
  note d = newGame_deck[OF unit_draws_high, of initialPage]
  from d have c: "card (set (cards (startGame draws_high initialPage))) = 8"
    by metis
  from d t have n: "count (mset (cards (startGame draws_high initialPage))) ''3'' = 2"
    by blast
  from d unit_draws_high e c n show ?thesis
    by blast
qed

section \<open>Properties of a move\<close>

lemmas resolve_defs = checkForMatch_def handleMatch_def handleNoMatch_def addClass_def
  setTimeout_def Let_def

lemmas callback_defs = resolve_defs flipBack_def removeClasses_def completeGame_def
  showGameCompleteModal_def stopTimer_def

lemma rejected_iff:
  "rejected a s \<longleftrightarrow>
     \<not> isGameActive s \<or> ''flipped'' \<in> classList (nodes s a) \<or>
     ''matched'' \<in> classList (nodes s a) \<or> length (flippedCards s) \<ge> 2"
  by (auto simp: rejected_def cardStateOf_def)

lemma handleCardClick_rejected: "rejected a s \<Longrightarrow> handleCardClick a i s = s"
  by (simp add: rejected_iff handleCardClick_def)

lemma handleCardClick_accepted: "\<not> rejected a s \<Longrightarrow> handleCardClick a i s = flipCard a i s"
  by (simp add: rejected_iff handleCardClick_def)

lemma moves_run: "moves (run cb s) = moves s"
  by (cases cb) (auto simp: callback_defs split: list.splits option.splits)

lemma moves_fire: "moves (fire k s) = moves s"
  by (simp add: fire_def moves_run)

lemma moves_tick: "moves (tick h s) = moves s"
  by (simp add: tick_def timerCallback_def)

text \<open>
  Claim C3. \<open>moves\<close> goes up by exactly 1 when a click is accepted while one card
  is pending, that is when the second card of a pair is revealed and the turn
  reaches two cards. It stays as it is when the first card of a pair is
  revealed, when a click is ignored, when a scheduled callback runs and when the
  clock ticks.
\<close>

theorem moves_increment:
  "moves (handleCardClick a i s) =
     (if \<not> rejected a s \<and> length (flippedCards s) = 1 then moves s + 1 else moves s) \<and>
   (\<not> rejected a s \<longrightarrow>
      length (flippedCards (handleCardClick a i s)) = length (flippedCards s) + 1) \<and>
   moves (fire k s) = moves s \<and> moves (tick h s) = moves s"
proof -
  have a: "moves (handleCardClick a i s) =
     (if \<not> rejected a s \<and> length (flippedCards s) = 1 then moves s + 1 else moves s)"
    by (cases "rejected a s") (simp_all add: handleCardClick_rejected handleCardClick_accepted
          flipCard_def addClass_def setTimeout_def Let_def)
  have b: "\<not> rejected a s \<longrightarrow>
      length (flippedCards (handleCardClick a i s)) = length (flippedCards s) + 1"
    by (simp add: handleCardClick_accepted flipCard_def addClass_def setTimeout_def Let_def)
  from a b show ?thesis by (simp add: moves_fire moves_tick)
qed

theorem moves_increment_witness:
  "\<not> rejected 0 game0 \<and> length (flippedCards game0) = 0 \<and>
   moves (handleCardClick 0 0 game0) = moves game0 \<and>
   \<not> rejected 1 game1 \<and> length (flippedCards game1) = 1 \<and>
   moves (handleCardClick 1 1 game1) = moves game1 + 1 \<and>
   length (flippedCards (handleCardClick 1 1 game1)) = 2"
proof -
  have r0: "\<not> rejected 0 game0" and l0: "length (flippedCards game0) = 0"
    by code_simp+
  have r1: "\<not> rejected 1 game1" and l1: "length (flippedCards game1) = 1"
    by code_simp+
  from moves_increment[of 0 0 game0 0 0] moves_increment[of 1 1 game1 0 0] r0 l0 r1 l1
  show ?thesis by simp
qed

section \<open>What each operation changes\<close>

lemma flipCard_state:
  "cardStateOf (nodes (flipCard a i s) b) =
     (if b = a \<and> cardStateOf (nodes s a) = Hidden then Revealed else cardStateOf (nodes s b))"
  by (simp add: flipCard_def addClass_def setTimeout_def Let_def cardStateOf_def)

lemma flipCard_fields:
  "flippedCards (flipCard a i s) =
     flippedCards s @ [\<lparr>element = a, index = i, cardType = dataset_cardType (nodes s a)\<rparr>]"
  "timeouts (flipCard a i s) =
     (if length (flippedCards s) = 1 then timeouts s @ [CheckForMatch] else timeouts s)"
  "gameGrid (flipCard a i s) = gameGrid s"
  "matchedPairs (flipCard a i s) = matchedPairs s"
  "isGameActive (flipCard a i s) = isGameActive s"
  "gameCompleteModal_display (flipCard a i s) = gameCompleteModal_display s"
  "intervals (flipCard a i s) = intervals s"
  "timerInterval (flipCard a i s) = timerInterval s"
  by (simp_all add: flipCard_def addClass_def setTimeout_def Let_def)

lemma handleMatch_state:
  "cardStateOf (nodes (handleMatch e1 e2 s) b) =
     (if b = e1 \<or> b = e2 then Matched else cardStateOf (nodes s b))"
  by (simp add: handleMatch_def addClass_def setTimeout_def Let_def cardStateOf_def)

lemma handleMatch_fields:
  "flippedCards (handleMatch e1 e2 s) = flippedCards s"
  "timeouts (handleMatch e1 e2 s) =
     (if matchedPairs s + 1 = 8 then timeouts s @ [CompleteGame] else timeouts s)"
  "gameGrid (handleMatch e1 e2 s) = gameGrid s"
  "matchedPairs (handleMatch e1 e2 s) = matchedPairs s + 1"
  "isGameActive (handleMatch e1 e2 s) = isGameActive s"
  "gameCompleteModal_display (handleMatch e1 e2 s) = gameCompleteModal_display s"
  "intervals (handleMatch e1 e2 s) = intervals s"
  "timerInterval (handleMatch e1 e2 s) = timerInterval s"
  by (simp_all add: handleMatch_def addClass_def setTimeout_def Let_def)

lemma handleNoMatch_state:
  "cardStateOf (nodes (handleNoMatch e1 e2 s) b) = cardStateOf (nodes s b)"
  by (simp add: handleNoMatch_def addClass_def setTimeout_def Let_def cardStateOf_def)

lemma handleNoMatch_fields:
  "flippedCards (handleNoMatch e1 e2 s) = flippedCards s"
  "timeouts (handleNoMatch e1 e2 s) = timeouts s @ [FlipBack e1 e2]"
  "gameGrid (handleNoMatch e1 e2 s) = gameGrid s"
  "matchedPairs (handleNoMatch e1 e2 s) = matchedPairs s"
  "isGameActive (handleNoMatch e1 e2 s) = isGameActive s"
  "gameCompleteModal_display (handleNoMatch e1 e2 s) = gameCompleteModal_display s"
  "intervals (handleNoMatch e1 e2 s) = intervals s"
  "timerInterval (handleNoMatch e1 e2 s) = timerInterval s"
  by (simp_all add: handleNoMatch_def addClass_def setTimeout_def Let_def)

lemma flipBack_state:
  "cardStateOf (nodes (flipBack e1 e2 s) b) =
     (if (b = e1 \<or> b = e2) \<and> cardStateOf (nodes s b) = Revealed then Hidden
      else cardStateOf (nodes s b))"
  by (simp add: flipBack_def removeClasses_def cardStateOf_def)

lemma flipBack_fields:
  "flippedCards (flipBack e1 e2 s) = flippedCards s"
  "timeouts (flipBack e1 e2 s) = timeouts s"
  "gameGrid (flipBack e1 e2 s) = gameGrid s"
  "matchedPairs (flipBack e1 e2 s) = matchedPairs s"
  "isGameActive (flipBack e1 e2 s) = isGameActive s"
  "gameCompleteModal_display (flipBack e1 e2 s) = gameCompleteModal_display s"
  "intervals (flipBack e1 e2 s) = intervals s"
  "timerInterval (flipBack e1 e2 s) = timerInterval s"
  by (simp_all add: flipBack_def removeClasses_def)

lemma completeGame_fields:
  "nodes (completeGame s) = nodes s"
  "flippedCards (completeGame s) = flippedCards s"
  "timeouts (completeGame s) = timeouts s"
  "gameGrid (completeGame s) = gameGrid s"
  "matchedPairs (completeGame s) = matchedPairs s"
  "isGameActive (completeGame s) = False"
  "gameCompleteModal_display (completeGame s) = ''flex''"
  "intervals (completeGame s) =
     (case timerInterval s of Some h \<Rightarrow> if h \<noteq> 0 then removeAll h (intervals s) else intervals s
      | None \<Rightarrow> intervals s)"
  by (simp_all add: completeGame_def showGameCompleteModal_def stopTimer_def split: option.splits)

lemma tick_fields:
  "nodes (tick h s) = nodes s"
  "flippedCards (tick h s) = flippedCards s"
  "timeouts (tick h s) = timeouts s"
  "gameGrid (tick h s) = gameGrid s"
  "matchedPairs (tick h s) = matchedPairs s"
  "isGameActive (tick h s) = isGameActive s"
  "gameCompleteModal_display (tick h s) = gameCompleteModal_display s"
  "intervals (tick h s) = intervals s"
  "timerInterval (tick h s) = timerInterval s"
  by (simp_all add: tick_def timerCallback_def)

section \<open>The invariant holds throughout a session\<close>

lemmas inv_defs = inv_turn_def inv_grid_def inv_busy_def inv_pairs_def inv_done_def inv_clock_def

lemma invariant_tick: "invariant (tick h s) = invariant s"
  unfolding invariant_def inv_defs busy_def matchedCards_def tick_fields ..

lemma startGame_state:
  assumes "unit_draws rnd" "a \<in> set (gameGrid (startGame rnd s))"
  shows "cardStateOf (nodes (startGame rnd s) a) = Hidden"
proof -
  from assms have "nextNode s \<le> a" "a < nextNode s + 16"
    by (simp_all add: startGame_gameGrid)
  then obtain i where i: "i < 16" "a = nextNode s + i"
    by (metis add_diff_inverse_nat nat_add_left_cancel_less not_less)
  show ?thesis
    unfolding i(2) startGame_nodes[OF assms(1) i(1)]
    by (simp add: createCardElement_def cardStateOf_def)
qed

lemma startGame_fields:
  "flippedCards (startGame rnd s) = []"
  "timeouts (startGame rnd s) = timeouts s"
  "matchedPairs (startGame rnd s) = 0"
  "moves (startGame rnd s) = 0"
  "timer (startGame rnd s) = 0"
  "isGameActive (startGame rnd s) = True"
  "gameCompleteModal_display (startGame rnd s) = gameCompleteModal_display s"
  "intervals (startGame rnd s) = Suc (lastHandle s) # intervals s"
  "timerInterval (startGame rnd s) = Some (Suc (lastHandle s))"
  "currentPlayer (startGame rnd s) = currentPlayer s"
  "localStorage (startGame rnd s) = localStorage s"
  by (simp_all add: startGame_eq)

lemma invariant_start:
  assumes "timeouts s0 = []" "intervals s0 = []" "gameCompleteModal_display s0 \<noteq> ''flex''"
    "unit_draws rnd"
  shows "invariant (startGame rnd s0)"
proof -
  have "matchedCards (startGame rnd s0) = {}"
    using startGame_state[OF assms(4)] by (auto simp: matchedCards_def)
  then show ?thesis
    using assms by (simp add: invariant_def inv_defs busy_def startGame_fields startGame_gameGrid)
qed

lemma flipCard_busy:
  "busy (flipCard a i s) = map element (flippedCards s) @ a # concat (map flipBackCards (timeouts s))"
  by (simp add: busy_def flipCard_fields)

lemma flipCard_matchedCards:
  "matchedCards (flipCard a i s) = matchedCards s"
  by (auto simp: matchedCards_def flipCard_state flipCard_fields)

lemma invariant_flipCard:
  assumes inv: "invariant s" and acc: "\<not> rejected a s" and grid: "a \<in> set (gameGrid s)"
  shows "invariant (flipCard a i s)"
proof -
  from acc have hid: "cardStateOf (nodes s a) = Hidden" and len: "length (flippedCards s) < 2"
    by (simp_all add: rejected_def)
  from inv have busy: "distinct (busy s)"
      "\<forall>b \<in> set (busy s). b \<in> set (gameGrid s) \<and> cardStateOf (nodes s b) = Revealed"
    by (simp_all add: invariant_def inv_busy_def)
  from busy(2) hid have notin: "a \<notin> set (busy s)" by auto
  have t: "inv_turn (flipCard a i s)"
    using inv len by (auto simp: invariant_def inv_turn_def flipCard_fields)
  have g: "inv_grid (flipCard a i s)"
    using inv by (simp add: invariant_def inv_grid_def flipCard_fields)
  have b: "inv_busy (flipCard a i s)"
    unfolding inv_busy_def flipCard_busy
    using busy notin grid hid by (auto simp: busy_def flipCard_state flipCard_fields)
  have p: "inv_pairs (flipCard a i s)"
    using inv by (simp add: invariant_def inv_pairs_def flipCard_matchedCards flipCard_fields)
  have d: "inv_done (flipCard a i s)"
    using inv unfolding invariant_def inv_done_def flipCard_fields by auto
  have c: "inv_clock (flipCard a i s)"
    using inv by (auto simp: invariant_def inv_clock_def flipCard_fields split: if_splits)
  from t g b p d c show ?thesis by (simp add: invariant_def)
qed

lemma fire_split:
  assumes "k < length (timeouts s)"
  shows "\<exists>pre post. timeouts s = pre @ (timeouts s ! k) # post \<and>
           fire k s = run (timeouts s ! k) (s\<lparr>timeouts := pre @ post\<rparr>)"
proof (intro exI conjI)
  show "timeouts s = take k (timeouts s) @ (timeouts s ! k) # drop (Suc k) (timeouts s)"
    using assms by (rule id_take_nth_drop)
  show "fire k s = run (timeouts s ! k)
          (s\<lparr>timeouts := take k (timeouts s) @ drop (Suc k) (timeouts s)\<rparr>)"
    using assms by (simp add: fire_def)
qed

lemma invariant_completeGame:
  assumes inv: "invariant s" and ts: "timeouts s = pre @ CompleteGame # post"
  shows "invariant (completeGame (s\<lparr>timeouts := pre @ post\<rparr>))"
proof -
  let ?s' = "completeGame (s\<lparr>timeouts := pre @ post\<rparr>)"
  have t: "inv_turn ?s'"
    using inv unfolding invariant_def inv_turn_def completeGame_fields ts by simp
  have g: "inv_grid ?s'"
    using inv unfolding invariant_def inv_grid_def completeGame_fields by simp
  have b: "inv_busy ?s'"
    using inv unfolding invariant_def inv_busy_def busy_def completeGame_fields ts by simp
  have p: "inv_pairs ?s'"
    using inv unfolding invariant_def inv_pairs_def matchedCards_def completeGame_fields by simp
  have d: "inv_done ?s'"
    using inv unfolding invariant_def inv_done_def completeGame_fields ts
    by (auto split: if_splits)
  have c: "inv_clock ?s'"
    using inv unfolding invariant_def inv_clock_def completeGame_fields
    by (auto split: option.splits if_splits)
  from t g b p d c show ?thesis by (simp add: invariant_def)
qed

lemma invariant_flipBack:
  assumes inv: "invariant s" and ts: "timeouts s = pre @ FlipBack a b # post"
  shows "invariant (flipBack a b (s\<lparr>timeouts := pre @ post\<rparr>))"
proof -
  let ?s' = "flipBack a b (s\<lparr>timeouts := pre @ post\<rparr>)"
  from inv have busy: "distinct (busy s)"
      "\<forall>c \<in> set (busy s). c \<in> set (gameGrid s) \<and> cardStateOf (nodes s c) = Revealed"
    by (simp_all add: invariant_def inv_busy_def)
  have bs: "busy s = map element (flippedCards s) @ concat (map flipBackCards pre) @
              a # b # concat (map flipBackCards post)"
    by (simp add: busy_def ts)
  have bs': "busy ?s' = map element (flippedCards s) @ concat (map flipBackCards pre) @
              concat (map flipBackCards post)"
    by (simp add: busy_def flipBack_fields)
  have t: "inv_turn ?s'"
    using inv unfolding invariant_def inv_turn_def flipBack_fields ts by simp
  have g: "inv_grid ?s'"
    using inv unfolding invariant_def inv_grid_def flipBack_fields by simp
  have b: "inv_busy ?s'"
    unfolding inv_busy_def bs' using busy unfolding bs
    by (auto simp: flipBack_state flipBack_fields)
  have "matchedCards ?s' = matchedCards s"
    by (auto simp: matchedCards_def flipBack_state flipBack_fields)
  then have p: "inv_pairs ?s'"
    using inv unfolding invariant_def inv_pairs_def flipBack_fields by simp
  have d: "inv_done ?s'"
    using inv unfolding invariant_def inv_done_def flipBack_fields ts by auto
  have c: "inv_clock ?s'"
    using inv by (auto simp: invariant_def inv_clock_def flipBack_fields split: if_splits)
  from t g b p d c show ?thesis by (simp add: invariant_def)
qed

lemma matchedCards_full:
  assumes "inv_grid s" "inv_pairs s" "matchedPairs s = 8" "a \<in> set (gameGrid s)"
  shows "cardStateOf (nodes s a) = Matched"
proof -
  have sub: "matchedCards s \<subseteq> set (gameGrid s)"
    by (auto simp: matchedCards_def)
  have "card (set (gameGrid s)) = 16"
    using assms(1) by (simp add: inv_grid_def distinct_card)
  moreover have "card (matchedCards s) = 16"
    using assms(2,3) by (simp add: inv_pairs_def)
  ultimately have "matchedCards s = set (gameGrid s)"
    using sub by (simp add: card_subset_eq)
  with assms(4) show ?thesis by (auto simp: matchedCards_def)
qed

lemma invariant_checkForMatch:
  assumes inv: "invariant s" and ts: "timeouts s = pre @ CheckForMatch # post"
  shows "invariant (run CheckForMatch (s\<lparr>timeouts := pre @ post\<rparr>))"
proof -
  let ?s1 = "s\<lparr>timeouts := pre @ post\<rparr>"
  from inv have turn: "length (flippedCards s) \<le> 2"
      "count_list (timeouts s) CheckForMatch = (if length (flippedCards s) = 2 then 1 else 0)"
    by (simp_all add: invariant_def inv_turn_def)
  from turn(2) have len: "length (flippedCards s) = 2"
    by (simp add: ts split: if_splits)
  from turn(2) len have cnt: "count_list (pre @ post) CheckForMatch = 0"
    by (simp add: ts)
  from len obtain c1 c2 where fc: "flippedCards s = [c1, c2]"
    by (metis (no_types) length_0_conv length_Suc_conv numeral_2_eq_2)
  define e1 e2 where "e1 = element c1" and "e2 = element c2"
  from inv have busy: "distinct (busy s)"
      "\<forall>c \<in> set (busy s). c \<in> set (gameGrid s) \<and> cardStateOf (nodes s c) = Revealed"
    by (simp_all add: invariant_def inv_busy_def)
  have bs: "busy s = e1 # e2 # concat (map flipBackCards pre) @ concat (map flipBackCards post)"
    by (simp add: busy_def ts fc e1_def e2_def)
  from busy bs have e: "e1 \<noteq> e2" "e1 \<in> set (gameGrid s)" "e2 \<in> set (gameGrid s)"
      "cardStateOf (nodes s e1) = Revealed" "cardStateOf (nodes s e2) = Revealed"
    by auto
  from inv have grid: "inv_grid s" and pairs: "inv_pairs s" and dn: "inv_done s"
      and clock: "inv_clock s"
    by (simp_all add: invariant_def)
  have mp: "matchedPairs s \<noteq> 8"
    using matchedCards_full[OF grid pairs _ e(2)] e(4) by auto
  show ?thesis
  proof (cases "cardType c1 = cardType c2")
    case True
    let ?s' = "(handleMatch e1 e2 ?s1)\<lparr>flippedCards := []\<rparr>"
    have r: "run CheckForMatch ?s1 = ?s'"
      by (simp add: checkForMatch_def fc True e1_def e2_def)
    have t: "inv_turn ?s'"
      using cnt by (simp add: inv_turn_def handleMatch_fields)
    have g: "inv_grid ?s'"
      using grid by (simp add: inv_grid_def handleMatch_fields)
    have bs': "busy ?s' = concat (map flipBackCards pre) @ concat (map flipBackCards post)"
      by (simp add: busy_def handleMatch_fields)
    have b: "inv_busy ?s'"
      unfolding inv_busy_def bs' using busy unfolding bs
      by (auto simp: handleMatch_state handleMatch_fields)
    have "matchedCards ?s' = insert e1 (insert e2 (matchedCards s))"
      using e by (auto simp: matchedCards_def handleMatch_state handleMatch_fields)
    moreover have "e1 \<notin> matchedCards s" "e2 \<notin> matchedCards s" "finite (matchedCards s)"
      using e by (auto simp: matchedCards_def)
    ultimately have "card (matchedCards ?s') = card (matchedCards s) + 2"
      using e(1) by simp
    then have p: "inv_pairs ?s'"
      using pairs by (simp add: inv_pairs_def handleMatch_fields)
    have d: "inv_done ?s'"
      using dn mp by (auto simp: inv_done_def handleMatch_fields ts)
    have c: "inv_clock ?s'"
      using clock by (auto simp: inv_clock_def handleMatch_fields split: if_splits)
    from t g b p d c show ?thesis unfolding r invariant_def by blast
  next
    case False
    let ?s' = "(handleNoMatch e1 e2 ?s1)\<lparr>flippedCards := []\<rparr>"
    have r: "run CheckForMatch ?s1 = ?s'"
      by (simp add: checkForMatch_def fc False e1_def e2_def)
    have t: "inv_turn ?s'"
      using cnt by (simp add: inv_turn_def handleNoMatch_fields)
    have g: "inv_grid ?s'"
      using grid by (simp add: inv_grid_def handleNoMatch_fields)
    have bs': "busy ?s' = concat (map flipBackCards pre) @ concat (map flipBackCards post) @ [e1, e2]"
      by (simp add: busy_def handleNoMatch_fields)
    have b: "inv_busy ?s'"
      unfolding inv_busy_def bs' using busy unfolding bs
      by (auto simp: handleNoMatch_state handleNoMatch_fields)
    have "matchedCards ?s' = matchedCards s"
      by (auto simp: matchedCards_def handleNoMatch_state handleNoMatch_fields)
    then have p: "inv_pairs ?s'"
      using pairs by (simp add: inv_pairs_def handleNoMatch_fields)
    have d: "inv_done ?s'"
      using dn by (auto simp: inv_done_def handleNoMatch_fields ts)
    have c: "inv_clock ?s'"
      using clock by (auto simp: inv_clock_def handleNoMatch_fields split: if_splits)
    from t g b p d c show ?thesis unfolding r invariant_def by blast
  qed
qed

lemma invariant_fire:
  assumes "invariant s"
  shows "invariant (fire k s)"
proof (cases "k < length (timeouts s)")
  case False
  then show ?thesis using assms by (simp add: fire_def)
next
  case True
  from fire_split[OF True] obtain pre post where
    ts: "timeouts s = pre @ (timeouts s ! k) # post" and
    f: "fire k s = run (timeouts s ! k) (s\<lparr>timeouts := pre @ post\<rparr>)"
    by blast
  show ?thesis
  proof (cases "timeouts s ! k")
    case CheckForMatch
    with ts f invariant_checkForMatch[OF assms, of pre post] show ?thesis by simp
  next
    case (FlipBack a b)
    with ts f invariant_flipBack[OF assms, of pre a b post] show ?thesis by simp
  next
    case CompleteGame
    with ts f invariant_completeGame[OF assms, of pre post] show ?thesis by simp
  qed
qed

lemma invariant_step:
  assumes "invariant s"
  shows "invariant (step e s)"
proof (cases e)
  case (Click i)
  show ?thesis
  proof (cases "i < length (gameGrid s) \<and> \<not> rejected (gameGrid s ! i) s")
    case True
    then show ?thesis
      using invariant_flipCard[OF assms, of "gameGrid s ! i" i]
      by (simp add: Click handleCardClick_accepted)
  next
    case False
    then show ?thesis
      using assms by (auto simp: Click handleCardClick_rejected)
  qed
next
  case (Timeout k)
  then show ?thesis using invariant_fire[OF assms] by simp
next
  case (Tick h)
  then show ?thesis using assms by (simp add: invariant_tick)
qed

lemma session_invariant: "session s \<Longrightarrow> invariant s"
  by (induction rule: session.induct) (simp_all add: invariant_start invariant_step)

section \<open>Claims about sessions\<close>

lemma session_play: "session s \<Longrightarrow> session (play evs s)"
  unfolding play_def by (induction evs arbitrary: s) (simp_all add: session.stepped)

lemma session_game0: "session game0"
  unfolding game0_def
  by (rule session.started) (simp_all add: initialPage_def unit_draws_high)

lemma session_game1: "session game1"
  unfolding game1_def by (rule session.stepped[OF session_game0])

lemma session_game2: "session game2"
  unfolding game2_def by (rule session.stepped[OF session_game1])

lemma session_game3: "session game3"
  unfolding game3_def by (rule session.stepped[OF session_game2])

lemma session_won: "session won"
  unfolding won_def by (rule session_play[OF session_game0])

lemma session_finished: "session finished"
  unfolding finished_def by (rule session.stepped[OF session_won])

text \<open>
  Claim C4. In every state a click is ignored, leaving the whole state (cards,
  pending turn, \<open>moves\<close>, \<open>matchedPairs\<close>, \<open>timer\<close> and all the rest) as it was,
  when the game is not active, when the clicked card is already revealed or
  matched, or when two cards are pending. Hence the pending turn of a session
  never holds more than two cards.
\<close>

theorem selectCard_noop:
  "(rejected a s \<longrightarrow> handleCardClick a i s = s) \<and>
   (session s \<longrightarrow> length (flippedCards s) \<le> 2)"
proof -
  have "session s \<longrightarrow> length (flippedCards s) \<le> 2"
    using session_invariant[of s] by (simp add: invariant_def inv_turn_def)
  then show ?thesis by (simp add: handleCardClick_rejected)
qed

theorem selectCard_noop_witness:
  "rejected 5 game2 \<and> length (flippedCards game2) = 2 \<and> handleCardClick 5 5 game2 = game2 \<and>
   rejected 0 game1 \<and> cardStateOf (nodes game1 0) = Revealed \<and> handleCardClick 0 0 game1 = game1 \<and>
   rejected 0 game3 \<and> cardStateOf (nodes game3 0) = Matched \<and> handleCardClick 0 0 game3 = game3 \<and>
   rejected 3 finished \<and> \<not> isGameActive finished \<and> handleCardClick 3 3 finished = finished \<and>
   session game2 \<and> length (flippedCards game2) \<le> 2"
proof -
  have a: "rejected 5 game2" "length (flippedCards game2) = 2"
    by code_simp+
  have b: "rejected 0 game1" "cardStateOf (nodes game1 0) = Revealed"
    by code_simp+
  have c: "rejected 0 game3" "cardStateOf (nodes game3 0) = Matched"
    by code_simp+
  have d: "rejected 3 finished" "\<not> isGameActive finished"
    by code_simp+
  from a b c d session_game2
    selectCard_noop[of 5 game2 5] selectCard_noop[of 0 game1 0]
    selectCard_noop[of 0 game3 0] selectCard_noop[of 3 finished 3]
  show ?thesis by simp
qed

text \<open>
  Claim C7. In a session, a tick of the clock while the game is not active
  leaves \<open>timer\<close> unchanged (no interval is running then, whatever handle the
  tick is for), and while the game is active exactly one interval is running,
  the one that \<open>startTimer\<close> registered, and its tick adds exactly 1 to \<open>timer\<close>.
\<close>

theorem tick_clock:
  assumes "session s"
  shows "(\<not> isGameActive s \<longrightarrow> timer (tick h s) = timer s) \<and>
         (isGameActive s \<longrightarrow>
            (\<exists>h0. timerInterval s = Some h0 \<and> intervals s = [h0] \<and>
                  timer (tick h0 s) = timer s + 1))"
proof -
  from session_invariant[OF assms] have "inv_clock s" by (simp add: invariant_def)
  then show ?thesis
    by (auto simp: inv_clock_def tick_def timerCallback_def split: if_splits)
qed

theorem tick_clock_witness:
  "session game1 \<and> isGameActive game1 \<and> timerInterval game1 = Some 1 \<and>
   timer (tick 1 game1) = timer game1 + 1 \<and>
   session finished \<and> \<not> isGameActive finished \<and> timer (tick 1 finished) = timer finished"
proof -
  have a: "isGameActive game1" "timerInterval game1 = Some 1" "\<not> isGameActive finished"
    by code_simp+
  from tick_clock[OF session_game1, of 1] tick_clock[OF session_finished, of 1] a
    session_game1 session_finished
  show ?thesis by auto
qed





section \<open>The invariant of playthroughs\<close>



















section \<open>Resolving a pending turn\<close>

lemma checkForMatch_two:
  assumes "flippedCards s = [card1, card2]"
  shows "checkForMatch s =
           Inr ((if cardType card1 = cardType card2
                 then handleMatch (element card1) (element card2) s
                 else handleNoMatch (element card1) (element card2) s)\<lparr>flippedCards := []\<rparr>)"
  by (simp add: checkForMatch_def assms)

lemma matched_run:
  assumes "cardStateOf (nodes s a) = Matched"
  shows "cardStateOf (nodes (run cb s) a) = Matched"
proof (cases cb)
  case CheckForMatch
  show ?thesis
  proof (cases "checkForMatch s")
    case (Inl err)
    with assms show ?thesis by (simp add: CheckForMatch)
  next
    case (Inr s')
    then have "cardStateOf (nodes s' a) = Matched"
      using assms
      by (auto simp: checkForMatch_def handleMatch_state handleNoMatch_state split: list.splits if_splits)
    with Inr show ?thesis by (simp add: CheckForMatch)
  qed
next
  case (FlipBack card1 card2)
  with assms show ?thesis by (simp add: flipBack_state)
next
  case CompleteGame
  with assms show ?thesis by (simp add: completeGame_fields)
qed

lemma matched_step:
  assumes "cardStateOf (nodes s a) = Matched"
  shows "cardStateOf (nodes (step e s) a) = Matched"
proof (cases e)
  case (Click i)
  with assms show ?thesis
    by (cases "rejected (gameGrid s ! i) s")
       (auto simp: handleCardClick_rejected handleCardClick_accepted flipCard_state)
next
  case (Timeout k)
  show ?thesis
  proof (cases "k < length (timeouts s)")
    case True
    have "cardStateOf (nodes (s\<lparr>timeouts := take k (timeouts s) @ drop (Suc k) (timeouts s)\<rparr>) a) = Matched"
      using assms by simp
    from matched_run[OF this] True show ?thesis by (simp add: Timeout fire_def)
  next
    case False
    with assms show ?thesis by (simp add: Timeout fire_def)
  qed
next
  case (Tick h)
  with assms show ?thesis by (simp add: tick_fields)
qed

text \<open>
  Claim C5, as the code has it. \<open>checkForMatch\<close> on a turn of two cards succeeds
  and clears the turn. If the types are equal, both cards become matched and
  \<open>matchedPairs\<close> goes up by 1. If the types differ, \<open>matchedPairs\<close> and the state
  of every card stay as they are, so the two cards are still revealed and none
  is matched, and a flip back of the two cards is scheduled; when that callback
  runs, the two cards go from revealed to hidden. No event of a session takes a
  matched card out of the matched state.
\<close>

theorem resolve_pending_turn:
  assumes "flippedCards s = [card1, card2]"
  shows
   "checkForMatch s = Inr (run CheckForMatch s) \<and>
    flippedCards (run CheckForMatch s) = [] \<and>
    (cardType card1 = cardType card2 \<longrightarrow>
       cardStateOf (nodes (run CheckForMatch s) (element card1)) = Matched \<and>
       cardStateOf (nodes (run CheckForMatch s) (element card2)) = Matched \<and>
       matchedPairs (run CheckForMatch s) = matchedPairs s + 1) \<and>
    (cardType card1 \<noteq> cardType card2 \<longrightarrow>
       matchedPairs (run CheckForMatch s) = matchedPairs s \<and>
       (\<forall>b. cardStateOf (nodes (run CheckForMatch s) b) = cardStateOf (nodes s b)) \<and>
       timeouts (run CheckForMatch s) = timeouts s @ [FlipBack (element card1) (element card2)] \<and>
       (\<forall>b. cardStateOf (nodes (flipBack (element card1) (element card2) (run CheckForMatch s)) b) =
              (if (b = element card1 \<or> b = element card2) \<and> cardStateOf (nodes s b) = Revealed
               then Hidden else cardStateOf (nodes s b)))) \<and>
    (cardStateOf (nodes s a) = Matched \<longrightarrow> cardStateOf (nodes (step e s) a) = Matched)"
proof -
  note c = checkForMatch_two[OF assms]
  have r: "checkForMatch s = Inr (run CheckForMatch s)"
    by (simp add: c)
  have f: "flippedCards (run CheckForMatch s) = []"
    by (simp add: c)
  have m: "cardType card1 = cardType card2 \<longrightarrow>
       cardStateOf (nodes (run CheckForMatch s) (element card1)) = Matched \<and>
       cardStateOf (nodes (run CheckForMatch s) (element card2)) = Matched \<and>
       matchedPairs (run CheckForMatch s) = matchedPairs s + 1"
    by (simp add: c handleMatch_state handleMatch_fields)
  have n: "cardType card1 \<noteq> cardType card2 \<longrightarrow>
       matchedPairs (run CheckForMatch s) = matchedPairs s \<and>
       (\<forall>b. cardStateOf (nodes (run CheckForMatch s) b) = cardStateOf (nodes s b)) \<and>
       timeouts (run CheckForMatch s) = timeouts s @ [FlipBack (element card1) (element card2)] \<and>
       (\<forall>b. cardStateOf (nodes (flipBack (element card1) (element card2) (run CheckForMatch s)) b) =
              (if (b = element card1 \<or> b = element card2) \<and> cardStateOf (nodes s b) = Revealed
               then Hidden else cardStateOf (nodes s b)))"
    by (simp add: c handleNoMatch_state handleNoMatch_fields flipBack_state)
  from r f m n show ?thesis
    by (simp add: matched_step)
qed

lemma session_miss3: "session miss3"
  unfolding miss3_def miss2_def
  by (intro session.stepped session_game1)

theorem resolve_pending_turn_witness:
  "flippedCards game5 =
     [\<lparr>element = 2, index = 2, cardType = ''2''\<rparr>, \<lparr>element = 3, index = 3, cardType = ''2''\<rparr>] \<and>
   cardStateOf (nodes (run CheckForMatch game5) 2) = Matched \<and>
   cardStateOf (nodes (run CheckForMatch game5) 3) = Matched \<and>
   matchedPairs (run CheckForMatch game5) = matchedPairs game5 + 1 \<and>
   flippedCards (run CheckForMatch game5) = [] \<and>
   cardStateOf (nodes game5 0) = Matched \<and>
   cardStateOf (nodes (step (Timeout 0) game5) 0) = Matched \<and>
   flippedCards miss2 =
     [\<lparr>element = 0, index = 0, cardType = ''1''\<rparr>, \<lparr>element = 2, index = 2, cardType = ''2''\<rparr>] \<and>
   flippedCards (run CheckForMatch miss2) = [] \<and>
   matchedPairs (run CheckForMatch miss2) = matchedPairs miss2 \<and>
   cardStateOf (nodes (run CheckForMatch miss2) 0) = Revealed \<and>
   timeouts (run CheckForMatch miss2) = timeouts miss2 @ [FlipBack 0 2] \<and>
   cardStateOf (nodes (flipBack 0 2 (run CheckForMatch miss2)) 0) = Hidden \<and>
   cardStateOf (nodes (flipBack 0 2 (run CheckForMatch miss2)) 2) = Hidden"
proof -
  have g: "flippedCards game5 =
     [\<lparr>element = 2, index = 2, cardType = ''2''\<rparr>, \<lparr>element = 3, index = 3, cardType = ''2''\<rparr>]"
    by code_simp
  have m: "flippedCards miss2 =
     [\<lparr>element = 0, index = 0, cardType = ''1''\<rparr>, \<lparr>element = 2, index = 2, cardType = ''2''\<rparr>]"
    by code_simp
  have r: "cardStateOf (nodes miss2 0) = Revealed" "cardStateOf (nodes miss2 2) = Revealed"
    "cardStateOf (nodes game5 0) = Matched"
    by code_simp+
  from resolve_pending_turn[OF g, of 0 "Timeout 0"] resolve_pending_turn[OF m, of 0 "Timeout 0"]
    g m r
  show ?thesis by simp
qed

text \<open>
  The claim as the specification words it has both cards hidden once a mismatch
  is resolved. In the session below the cards \<open>0\<close> and \<open>2\<close>, of types \<open>1\<close> and \<open>2\<close>,
  are pending; when the scheduled \<open>checkForMatch\<close> has run, the turn is empty and
  both cards are still revealed (a click on them is still ignored); they are
  hidden only when the scheduled flip back has run as well.
\<close>

theorem mismatch_stays_revealed_counterexample:
  "session miss3 \<and> miss3 = step (Timeout 0) miss2 \<and> timeouts miss2 = [CheckForMatch] \<and>
   map cardType (flippedCards miss2) = [''1'', ''2''] \<and>
   map element (flippedCards miss2) = [0, 2] \<and>
   flippedCards miss3 = [] \<and>
   cardStateOf (nodes miss3 0) = Revealed \<and> cardStateOf (nodes miss3 2) = Revealed \<and>
   rejected 0 miss3 \<and> timeouts miss3 = [FlipBack 0 2] \<and>
   cardStateOf (nodes miss4 0) = Hidden \<and> cardStateOf (nodes miss4 2) = Hidden"
proof -
  have "timeouts miss2 = [CheckForMatch] \<and>
   map cardType (flippedCards miss2) = [''1'', ''2''] \<and>
   map element (flippedCards miss2) = [0, 2] \<and>
   flippedCards miss3 = [] \<and>
   cardStateOf (nodes miss3 0) = Revealed \<and> cardStateOf (nodes miss3 2) = Revealed \<and>
   rejected 0 miss3 \<and> timeouts miss3 = [FlipBack 0 2] \<and>
   cardStateOf (nodes miss4 0) = Hidden \<and> cardStateOf (nodes miss4 2) = Hidden"
    by code_simp
  with session_miss3 show ?thesis by (simp add: miss3_def)
qed

section \<open>The attempt number\<close>

lemma digit_props:
  assumes "digit c"
  shows "digitValue c < 10" "\<not> isWhiteSpace c" "c \<noteq> CHR ''+''" "c \<noteq> CHR ''-''"
    "c \<noteq> CHR ''x''" "c \<noteq> CHR ''X''"
proof -
  from assms obtain d :: nat where d: "d < 10" "c = char_of (d + 48)"
    by (auto simp: digit_def)
  then have o: "(of_char c :: nat) = d + 48" by simp
  show "digitValue c < 10" using d(1) by (simp add: digitValue_def o)
  show "\<not> isWhiteSpace c" using d(1) by (simp add: isWhiteSpace_def o)
  show "c \<noteq> CHR ''+''" using o d(1) by auto
  show "c \<noteq> CHR ''-''" using o d(1) by auto
  show "c \<noteq> CHR ''x''" using o d(1) by auto
  show "c \<noteq> CHR ''X''" using o d(1) by auto
qed

lemma digitValue_char: "d < 10 \<Longrightarrow> digitValue (char_of (d + 48)) = d"
  by (simp add: digitValue_def)

lemma decimal_digits: "c \<in> set (decimal n) \<Longrightarrow> digit c"
proof (induction n arbitrary: c rule: decimal.induct)
  case (1 n)
  have last: "digit (char_of (n mod 10 + 48))"
    unfolding digit_def by (rule exI[of _ "n mod 10"]) simp
  from "1.prems" have "c \<in> set (if 10 \<le> n then decimal (n div 10) else []) \<or> c = char_of (n mod 10 + 48)"
    by (subst (asm) decimal.simps) auto
  then show ?case
    using "1.IH" last by (auto split: if_splits)
qed

lemma decimal_value: "foldl (\<lambda>acc c. acc * 10 + digitValue c) 0 (decimal n) = n"
proof (induction n rule: decimal.induct)
  case (1 n)
  show ?case
  proof (cases "10 \<le> n")
    case True
    with "1.IH" show ?thesis
      by (subst decimal.simps) (simp add: digitValue_char)
  next
    case False
    then show ?thesis
      by (subst decimal.simps) (simp add: digitValue_char)
  qed
qed

lemma decimal_not_Nil: "decimal n \<noteq> []"
  by (subst decimal.simps) simp

lemma parseInt_decimal: "parseInt (decimal n) = Num (int n)"
proof -
  obtain c cs where cs: "decimal n = c # cs"
    using decimal_not_Nil[of n] by (cases "decimal n") auto
  have dc: "digit c" and dcs: "\<forall>x \<in> set cs. digit x"
    using decimal_digits[of _ n] by (simp_all add: cs)
  have ws: "dropWhile isWhiteSpace (decimal n) = decimal n"
    using digit_props(2)[OF dc] by (simp add: cs)
  have sign: "hd (decimal n) \<noteq> CHR ''-''" "hd (decimal n) \<noteq> CHR ''+''"
    using digit_props(3,4)[OF dc] by (simp_all add: cs)
  have nohex: "take 2 (decimal n) \<noteq> ''0x''" "take 2 (decimal n) \<noteq> ''0X''"
    using dcs digit_props(5,6) by (cases cs; auto simp: cs)+
  have all: "takeWhile (\<lambda>c. digitValue c < 10) (decimal n) = decimal n"
    using decimal_digits[of _ n] digit_props(1) by (simp add: takeWhile_eq_all_conv)
  have "parseInt (decimal n) =
          Num (1 * int (foldl (\<lambda>acc c. acc * 10 + digitValue c) 0 (decimal n)))"
    unfolding parseInt_def Let_def
    by (simp only: ws sign nohex all decimal_not_Nil simp_thms if_True if_False)
  then show ?thesis by (simp add: decimal_value)
qed

lemma isValidEmail_not_Nil: "isValidEmail mail \<Longrightarrow> mail \<noteq> []"
  by (cases mail) (simp_all add: isValidEmail_def)

lemma decimal_1: "decimal (Suc 0) = ''1''"
  by (subst decimal.simps) (simp add: char_of_eq_iff)

text \<open>
  Claim C10. When the entry form is submitted with a valid nickname and email,
  the attempt number stamped into the player is the stored count plus 1 if a
  count is stored under the key \<open>nickname_email\<close> (as the decimal string that the
  script itself writes), and 1 if nothing is stored under that key; in both
  cases the new number is written back under the key. The stored count is taken
  below \<open>2^53\<close>, where JavaScript numbers are exact.
\<close>

theorem handleStartGame_attempt:
  assumes "2 \<le> length (trim rawNickname)" and "isValidEmail (trim rawEmail)"
    and "key = trim rawNickname @ ''_'' @ trim rawEmail"
    and "s' = handleStartGame rawNickname rawEmail rnd s"
    and "n < 2 ^ 53"
  shows "nickname (currentPlayer s') = trim rawNickname \<and>
         email (currentPlayer s') = trim rawEmail \<and>
         (localStorage s key = None \<longrightarrow>
            attempt (currentPlayer s') = Num 1 \<and> localStorage s' key = Some ''1'') \<and>
         (localStorage s key = Some (decimal n) \<longrightarrow>
            attempt (currentPlayer s') = Num (int n + 1) \<and>
            localStorage s' key = Some (decimal (n + 1)))"
proof -
  from assms(1) have nick: "trim rawNickname \<noteq> []" "\<not> length (trim rawNickname) < 2"
    by auto
  note mail = isValidEmail_not_Nil[OF assms(2)] assms(2)
  have v: "nat (int n + 1) = n + 1" by simp
  have a: "nickname (currentPlayer s') = trim rawNickname \<and>
           email (currentPlayer s') = trim rawEmail"
    unfolding assms(4) handleStartGame_def Let_def
    by (simp add: nick mail startGame_fields)
  have b: "localStorage s key = None \<longrightarrow>
            attempt (currentPlayer s') = Num 1 \<and> localStorage s' key = Some ''1''"
    unfolding assms(3,4) handleStartGame_def Let_def
    by (simp add: nick mail startGame_fields decimal_1)
  have c: "localStorage s key = Some (decimal n) \<longrightarrow>
            attempt (currentPlayer s') = Num (int n + 1) \<and>
            localStorage s' key = Some (decimal (n + 1))"
    unfolding assms(3,4) handleStartGame_def Let_def
    by (simp add: nick mail startGame_fields parseInt_decimal decimal_not_Nil v)
  from a b c show ?thesis by simp
qed

theorem handleStartGame_attempt_witness:
  "2 \<le> length (trim '' Ann '') \<and> isValidEmail (trim ''a@b.c '') \<and>
   trim '' Ann '' @ ''_'' @ trim ''a@b.c '' = ''Ann_a@b.c'' \<and>
   localStorage initialPage ''Ann_a@b.c'' = None \<and>
   attempt (currentPlayer (handleStartGame '' Ann '' ''a@b.c '' draws_zero initialPage)) = Num 1 \<and>
   localStorage (handleStartGame '' Ann '' ''a@b.c '' draws_zero initialPage) ''Ann_a@b.c'' =
     Some ''1'' \<and>
   localStorage stored3 ''Ann_a@b.c'' = Some ''3'' \<and>
   attempt (currentPlayer (handleStartGame '' Ann '' ''a@b.c '' draws_zero stored3)) = Num 4 \<and>
   localStorage (handleStartGame '' Ann '' ''a@b.c '' draws_zero stored3) ''Ann_a@b.c'' =
     Some ''4''"
proof -
  have t: "trim '' Ann '' = ''Ann''" "trim ''a@b.c '' = ''a@b.c''"
    by (simp_all add: trim_def isWhiteSpace_def)
  have l: "2 \<le> length (trim '' Ann '')"
    by (simp add: t)
  have v: "isValidEmail (trim ''a@b.c '')"
    by (simp add: t isValidEmail_def isWhiteSpace_def)
  have k: "''Ann_a@b.c'' = trim '' Ann '' @ ''_'' @ trim ''a@b.c ''"
    by (simp add: t)
  have d: "decimal 3 = ''3''" "decimal (3 + 1) = ''4''"
    by (subst decimal.simps, simp add: char_of_eq_iff)+
  have s0: "localStorage initialPage ''Ann_a@b.c'' = None"
    by (simp add: initialPage_def)
  have s3: "localStorage stored3 ''Ann_a@b.c'' = Some (decimal 3)"
    by (simp add: stored3_def d)
  have b: "(3 :: nat) < 2 ^ 53" by simp
  from handleStartGame_attempt[OF l v k refl b, of draws_zero initialPage]
    handleStartGame_attempt[OF l v k refl b, of draws_zero stored3]
    l v k s0 s3 d
  show ?thesis by simp
qed

section \<open>Trying again\<close>

lemma completed_clean:
  assumes "session s" "completed s"
  shows "timeouts s = [] \<and> intervals s = [] \<and> flippedCards s = []"
proof -
  note inv = session_invariant[OF assms(1)]
  from assms(2) have na: "\<not> isGameActive s" by (simp add: completed_def)
  from inv have grid: "inv_grid s" and pairs: "inv_pairs s" and dn: "inv_done s"
      and clock: "inv_clock s" and turn: "inv_turn s" and b: "inv_busy s"
    by (simp_all add: invariant_def)
  from dn na have mp: "matchedPairs s = 8" and cg: "count_list (timeouts s) CompleteGame = 0"
    by (simp_all add: inv_done_def)
  have "a \<notin> set (busy s)" for a
    using b matchedCards_full[OF grid pairs mp, of a] by (auto simp: inv_busy_def)
  then have busy: "busy s = []" by (cases "busy s") auto
  then have fc: "flippedCards s = []" and fb: "\<forall>cb \<in> set (timeouts s). flipBackCards cb = []"
    by (simp_all add: busy_def)
  from turn fc have cm: "count_list (timeouts s) CheckForMatch = 0"
    by (simp add: inv_turn_def)
  have "cb \<notin> set (timeouts s)" for cb
  proof (cases cb)
    case CheckForMatch
    with cm show ?thesis by (simp add: count_list_0_iff)
  next
    case (FlipBack x y)
    with fb show ?thesis by auto
  next
    case CompleteGame
    with cg show ?thesis by (simp add: count_list_0_iff)
  qed
  then have ts: "timeouts s = []" by (cases "timeouts s") auto
  from clock na have "intervals s = []" by (simp add: inv_clock_def)
  with ts fc show ?thesis by simp
qed

lemma handleTryAgain_eq:
  "handleTryAgain rnd s =
     startGame rnd
       (s\<lparr>gameCompleteModal_display := ''none'',
          currentPlayer := (currentPlayer s)\<lparr>attempt := increment (attempt (currentPlayer s))\<rparr>,
          localStorage := (localStorage s)
            (nickname (currentPlayer s) @ ''_'' @ email (currentPlayer s) \<mapsto>
               toString (increment (attempt (currentPlayer s))))\<rparr>)"
  by (simp add: handleTryAgain_def playerKey_def Let_def)

text \<open>
  Claim C9. \<open>handleTryAgain\<close> adds exactly 1 to the attempt number of the player,
  stores the new number under the key \<open>nickname_email\<close>, and starts a new game
  for the same player: \<open>moves\<close>, \<open>timer\<close> and \<open>matchedPairs\<close> are \<open>0\<close>, the pending
  turn is empty, the game is active, the modal is hidden, and the grid holds 16
  newly created hidden cards showing a newly shuffled deck. After a completed
  session nothing of that session is left pending, so the new game is the start
  of a session of its own. The attempt number is taken to be an integer below
  \<open>2^53\<close> in absolute value, where JavaScript numbers are exact.
\<close>

theorem handleTryAgain_retry:
  assumes "unit_draws rnd" and "attempt (currentPlayer s) = Num n" and "\<bar>n\<bar> < 2 ^ 53"
    and "key = nickname (currentPlayer s) @ ''_'' @ email (currentPlayer s)"
    and "s' = handleTryAgain rnd s"
  shows "attempt (currentPlayer s') = Num (n + 1) \<and>
         nickname (currentPlayer s') = nickname (currentPlayer s) \<and>
         email (currentPlayer s') = email (currentPlayer s) \<and>
         localStorage s' key = Some (toString (Num (n + 1))) \<and>
         moves s' = 0 \<and> timer s' = 0 \<and> matchedPairs s' = 0 \<and> flippedCards s' = [] \<and>
         isGameActive s' \<and> gameCompleteModal_display s' = ''none'' \<and>
         gameGrid s' = [nextNode s ..< nextNode s + 16] \<and>
         (\<forall>a \<in> set (gameGrid s'). cardStateOf (nodes s' a) = Hidden) \<and>
         mset (cards s') = mset cardPairs \<and>
         (session s \<and> completed s \<longrightarrow> session s' \<and> timeouts s' = [])"
proof -
  let ?s3 = "s\<lparr>gameCompleteModal_display := ''none'',
          currentPlayer := (currentPlayer s)\<lparr>attempt := increment (attempt (currentPlayer s))\<rparr>,
          localStorage := (localStorage s)
            (nickname (currentPlayer s) @ ''_'' @ email (currentPlayer s) \<mapsto>
               toString (increment (attempt (currentPlayer s))))\<rparr>"
  have e: "s' = startGame rnd ?s3"
    by (simp only: assms(5) handleTryAgain_eq)
  have a: "attempt (currentPlayer s') = Num (n + 1) \<and>
         nickname (currentPlayer s') = nickname (currentPlayer s) \<and>
         email (currentPlayer s') = email (currentPlayer s) \<and>
         localStorage s' key = Some (toString (Num (n + 1)))"
    unfolding e by (simp add: startGame_fields assms(2,4))
  have b: "moves s' = 0 \<and> timer s' = 0 \<and> matchedPairs s' = 0 \<and> flippedCards s' = [] \<and>
         isGameActive s' \<and> gameCompleteModal_display s' = ''none''"
    unfolding e by (simp add: startGame_fields)
  have g: "gameGrid s' = [nextNode s ..< nextNode s + 16]"
    unfolding e by (simp add: startGame_gameGrid[OF assms(1)])
  have h: "\<forall>a \<in> set (gameGrid s'). cardStateOf (nodes s' a) = Hidden"
    unfolding e using startGame_state[OF assms(1)] by blast
  have m: "mset (cards s') = mset cardPairs"
    unfolding e by (simp add: startGame_cards shuffleArray_mset[OF assms(1)])
  have n: "session s \<and> completed s \<longrightarrow> session s' \<and> timeouts s' = []"
  proof
    assume sc: "session s \<and> completed s"
    then have c: "timeouts s = []" "intervals s = []"
      using completed_clean[of s] by simp_all
    have "session (startGame rnd ?s3)"
      by (rule session.started) (simp_all add: c assms(1))
    then show "session s' \<and> timeouts s' = []"
      unfolding e by (simp add: startGame_fields c)
  qed
  from a b g h m n show ?thesis by blast
qed

theorem handleTryAgain_retry_witness:
  "unit_draws draws_zero \<and> session finished \<and> completed finished \<and>
   attempt (currentPlayer finished) = Num 1 \<and>
   attempt (currentPlayer (handleTryAgain draws_zero finished)) = Num 2 \<and>
   localStorage (handleTryAgain draws_zero finished) ''_'' = Some ''2'' \<and>
   moves finished = 8 \<and> moves (handleTryAgain draws_zero finished) = 0 \<and>
   matchedPairs (handleTryAgain draws_zero finished) = 0 \<and>
   gameGrid (handleTryAgain draws_zero finished) = [16 ..< 32] \<and>
   session (handleTryAgain draws_zero finished)"
proof -
  have f: "completed finished" "attempt (currentPlayer finished) = Num 1"
    "moves finished = 8" "nextNode finished = 16"
    "nickname (currentPlayer finished) = []" "email (currentPlayer finished) = []"
    by code_simp+
  have k: "''_'' = nickname (currentPlayer finished) @ ''_'' @ email (currentPlayer finished)"
    by (simp add: f)
  have d: "decimal 2 = ''2''"
    by (subst decimal.simps) (simp add: char_of_eq_iff)
  have b: "\<bar>1 :: int\<bar> < 2 ^ 53" by simp
  from handleTryAgain_retry[OF unit_draws_zero f(2) b k refl] f d
    unit_draws_zero session_finished
  show ?thesis by simp
qed

end
